theory Spec2Isabelle
  imports Complex_Main
begin

section \<open>JavaScript numbers\<close>

text \<open>
  The server computes with JavaScript numbers: IEEE 754 binary64 values. A finite value is
  represented by the rational it denotes; every arithmetic operation computes the exact
  rational result and rounds it to the nearest binary64 value, ties to even. The two zeros
  are identified: the operations the server uses (\<open>+\<close>, \<open>-\<close>, \<open>*\<close>, \<open><\<close>, \<open>===\<close>,
  \<open>Math.floor\<close>, \<open>toString\<close>) cannot tell them apart.
\<close>

datatype number = NaN | PosInf | NegInf | Fin rat

definition ipow :: "int \<Rightarrow> int \<Rightarrow> rat" where
  "ipow b e = (if 0 \<le> e then of_int b ^ nat e else 1 / of_int b ^ nat (- e))"

function ilog_up :: "int \<Rightarrow> rat \<Rightarrow> int" where
  "ilog_up b x = (if x < of_int b \<or> b < 2 then 0 else 1 + ilog_up b (x / of_int b))"
  by pat_completeness auto
termination
proof (relation "measure (\<lambda>(b, x). nat \<lfloor>x\<rfloor>)")
  fix b :: int and x :: rat
  assume a: "\<not> (x < of_int b \<or> b < 2)"
  then have b: "2 \<le> b" and x: "of_int b \<le> x" by auto
  have b2: "(2::rat) \<le> of_int b" using b by (metis of_int_le_iff of_int_numeral)
  have x2: "2 \<le> x" using b2 x by linarith
  have "x / of_int b \<le> x / 2" using b2 x2 by (intro divide_left_mono) auto
  also have "\<dots> \<le> x - 1" using x2 by simp
  finally have "\<lfloor>x / of_int b\<rfloor> \<le> \<lfloor>x - 1\<rfloor>" by (rule floor_mono)
  then have "\<lfloor>x / of_int b\<rfloor> < \<lfloor>x\<rfloor>" by simp
  moreover have "0 < \<lfloor>x\<rfloor>" using x2 by simp
  ultimately show "((b, x / of_int b), (b, x)) \<in> measure (\<lambda>(b, x). nat \<lfloor>x\<rfloor>)" by simp
qed simp

function ilog_down :: "int \<Rightarrow> rat \<Rightarrow> int" where
  "ilog_down b x = (if 1 \<le> x \<or> x \<le> 0 \<or> b < 2 then 0 else ilog_down b (x * of_int b) - 1)"
  by pat_completeness auto
termination
proof (relation "measure (\<lambda>(b, x). nat \<lfloor>1 / x\<rfloor>)")
  fix b :: int and x :: rat
  assume a: "\<not> (1 \<le> x \<or> x \<le> 0 \<or> b < 2)"
  then have b: "2 \<le> b" and x: "0 < x" "x < 1" by auto
  define y where "y = 1 / x"
  have y1: "1 < y" using x by (simp add: y_def)
  have b2: "(2::rat) \<le> of_int b" using b by (metis of_int_le_iff of_int_numeral)
  have "1 / (x * of_int b) = y / of_int b" by (simp add: y_def)
  also have "\<dots> \<le> y / 2" using b2 y1 by (intro divide_left_mono) auto
  finally have le: "\<lfloor>1 / (x * of_int b)\<rfloor> \<le> \<lfloor>y / 2\<rfloor>" by (rule floor_mono)
  have "\<lfloor>y / 2\<rfloor> < \<lfloor>y\<rfloor>"
  proof (cases "y < 2")
    case True
    then have "\<lfloor>y / 2\<rfloor> < 1" by (simp add: floor_less_iff)
    moreover have "1 \<le> \<lfloor>y\<rfloor>" using y1 by (simp add: le_floor_iff)
    ultimately show ?thesis by linarith
  next
    case False
    then have "y / 2 \<le> y - 1" by simp
    then have "\<lfloor>y / 2\<rfloor> \<le> \<lfloor>y - 1\<rfloor>" by (rule floor_mono)
    then show ?thesis by simp
  qed
  moreover have "0 < \<lfloor>y\<rfloor>" using y1 by simp
  ultimately show "((b, x * of_int b), (b, x)) \<in> measure (\<lambda>(b, x). nat \<lfloor>1 / x\<rfloor>)"
    using le by (simp add: y_def)
qed simp

declare ilog_up.simps [simp del] ilog_down.simps [simp del]

definition ilog :: "int \<Rightarrow> rat \<Rightarrow> int" where
  "ilog b x = (if 1 \<le> x then ilog_up b x else ilog_down b x)"

definition half_even :: "int \<Rightarrow> rat \<Rightarrow> int" where
  "half_even f x = (if x - of_int f < 1 / 2 then f
                    else if 1 / 2 < x - of_int f then f + 1
                    else if even f then f else f + 1)"

definition round_half_even :: "rat \<Rightarrow> int" where
  "round_half_even x = half_even \<lfloor>x\<rfloor> x"

definition quantum :: "rat \<Rightarrow> rat" where
  "quantum a = ipow 2 (max (ilog 2 a) (- 1022) - 52)"

definition round_to :: "rat \<Rightarrow> rat \<Rightarrow> rat" where
  "round_to q a = of_int (round_half_even (a / q)) * q"

definition with_sign :: "rat \<Rightarrow> rat \<Rightarrow> number" where
  "with_sign x r = (if ipow 2 1024 \<le> r then (if 0 < x then PosInf else NegInf)
                    else Fin (if 0 < x then r else - r))"

definition round_double :: "rat \<Rightarrow> number" where
  "round_double x = (if x = 0 then Fin 0 else with_sign x (round_to (quantum \<bar>x\<bar>) \<bar>x\<bar>))"

fun js_neg :: "number \<Rightarrow> number" where
  "js_neg NaN = NaN"
| "js_neg PosInf = NegInf"
| "js_neg NegInf = PosInf"
| "js_neg (Fin x) = Fin (- x)"

fun js_add :: "number \<Rightarrow> number \<Rightarrow> number" where
  "js_add NaN _ = NaN"
| "js_add _ NaN = NaN"
| "js_add PosInf NegInf = NaN"
| "js_add NegInf PosInf = NaN"
| "js_add PosInf _ = PosInf"
| "js_add NegInf _ = NegInf"
| "js_add _ PosInf = PosInf"
| "js_add _ NegInf = NegInf"
| "js_add (Fin a) (Fin b) = round_double (a + b)"

definition js_sub :: "number \<Rightarrow> number \<Rightarrow> number" where
  "js_sub a b = js_add a (js_neg b)"

fun js_signum :: "number \<Rightarrow> int" where
  "js_signum NaN = 0"
| "js_signum PosInf = 1"
| "js_signum NegInf = - 1"
| "js_signum (Fin x) = (if x < 0 then - 1 else if x = 0 then 0 else 1)"

definition inf_of_sign :: "int \<Rightarrow> number" where
  "inf_of_sign s = (if s = 0 then NaN else if 0 < s then PosInf else NegInf)"

fun js_mul :: "number \<Rightarrow> number \<Rightarrow> number" where
  "js_mul NaN _ = NaN"
| "js_mul _ NaN = NaN"
| "js_mul (Fin a) (Fin b) = round_double (a * b)"
| "js_mul a b = inf_of_sign (js_signum a * js_signum b)"

fun js_lt :: "number \<Rightarrow> number \<Rightarrow> bool" where
  "js_lt NaN _ = False"
| "js_lt _ NaN = False"
| "js_lt (Fin a) (Fin b) = (a < b)"
| "js_lt PosInf _ = False"
| "js_lt _ NegInf = False"
| "js_lt NegInf _ = True"
| "js_lt _ PosInf = True"

definition js_strict_eq :: "number \<Rightarrow> number \<Rightarrow> bool" where
  "js_strict_eq a b = (a \<noteq> NaN \<and> a = b)"

fun js_floor :: "number \<Rightarrow> number" where
  "js_floor (Fin x) = Fin (of_int \<lfloor>x\<rfloor>)"
| "js_floor a = a"

definition digit_char :: "int \<Rightarrow> char" where
  "digit_char d = ''0123456789'' ! nat d"

function digits10 :: "int \<Rightarrow> string" where
  "digits10 n = (if n < 10 then [digit_char n] else digits10 (n div 10) @ [digit_char (n mod 10)])"
  by pat_completeness auto
termination
  by (relation "measure nat") (auto intro: int_div_less_self)

declare digits10.simps [simp del]

definition decimal :: "int \<Rightarrow> int \<Rightarrow> int \<Rightarrow> rat" where
  "decimal k s n = of_int s * ipow 10 (n - k)"

definition upper_candidate :: "int \<Rightarrow> int \<Rightarrow> int \<Rightarrow> int \<times> int" where
  "upper_candidate k n0 lo =
     (if of_int (lo + 1) < ipow 10 k then (lo + 1, n0) else (\<lfloor>ipow 10 (k - 1)\<rfloor>, n0 + 1))"

definition candidates :: "rat \<Rightarrow> int \<Rightarrow> int \<Rightarrow> int \<Rightarrow> (int \<times> int) list" where
  "candidates x n0 k lo =
     filter (\<lambda>(s, n). round_double (decimal k s n) = Fin x) [(lo, n0), upper_candidate k n0 lo]"

definition nearer :: "rat \<Rightarrow> int \<Rightarrow> int \<times> int \<Rightarrow> int \<times> int \<Rightarrow> int \<times> int" where
  "nearer x k c c' =
     (if \<bar>decimal k (fst c') (snd c') - x\<bar> < \<bar>decimal k (fst c) (snd c) - x\<bar>
         \<or> (\<bar>decimal k (fst c') (snd c') - x\<bar> = \<bar>decimal k (fst c) (snd c) - x\<bar> \<and> even (fst c'))
      then c' else c)"

fun find_digits :: "rat \<Rightarrow> int \<Rightarrow> int list \<Rightarrow> (int \<times> int) option" where
  "find_digits x n0 [] = None"
| "find_digits x n0 (k # ks) =
     (case candidates x n0 k \<lfloor>x * ipow 10 (k - n0)\<rfloor> of
        [] \<Rightarrow> find_digits x n0 ks
      | c # cs \<Rightarrow> Some (foldl (nearer x k) c cs))"

definition exponent_part :: "int \<Rightarrow> string" where
  "exponent_part e = ''e'' @ (if e < 0 then ''-'' else ''+'') @ digits10 \<bar>e\<bar>"

definition format_digits :: "string \<Rightarrow> int \<Rightarrow> string" where
  "format_digits ds n =
     (if int (length ds) \<le> n \<and> n \<le> 21 then ds @ replicate (nat (n - int (length ds))) CHR ''0''
      else if 0 < n \<and> n \<le> 21 then take (nat n) ds @ ''.'' @ drop (nat n) ds
      else if - 6 < n \<and> n \<le> 0 then ''0.'' @ replicate (nat (- n)) CHR ''0'' @ ds
      else if length ds = 1 then ds @ exponent_part (n - 1)
      else hd ds # ''.'' @ tl ds @ exponent_part (n - 1))"

definition pos_toString :: "rat \<Rightarrow> string" where
  "pos_toString x =
     (case find_digits x (ilog 10 x + 1) [1, 2, 3, 4, 5, 6, 7, 8, 9, 10, 11, 12, 13, 14, 15, 16, 17] of
        None \<Rightarrow> []
      | Some (s, n) \<Rightarrow> format_digits (digits10 s) n)"

fun js_toString :: "number \<Rightarrow> string" where
  "js_toString NaN = ''NaN''"
| "js_toString PosInf = ''Infinity''"
| "js_toString NegInf = ''-Infinity''"
| "js_toString (Fin x) =
     (if x = 0 then ''0'' else if x < 0 then ''-'' @ pos_toString (- x) else pos_toString x)"


section \<open>JavaScript strings\<close>

text \<open>
  Strings are lists of code units; the model covers code units below 256. The white space
  that \<open>parseInt\<close> and \<open>parseFloat\<close> skip is TAB, LF, VT, FF, CR, SP and NBSP.
\<close>

definition is_ws :: "char \<Rightarrow> bool" where
  "is_ws c = (c \<in> set [CHR 0x09, CHR 0x0A, CHR 0x0B, CHR 0x0C, CHR 0x0D, CHR 0x20, CHR 0xA0])"

definition digit_of :: "char \<Rightarrow> int" where
  "digit_of c =
     (case map_of
        [(CHR ''0'', 0), (CHR ''1'', 1), (CHR ''2'', 2), (CHR ''3'', 3), (CHR ''4'', 4),
         (CHR ''5'', 5), (CHR ''6'', 6), (CHR ''7'', 7), (CHR ''8'', 8), (CHR ''9'', 9),
         (CHR ''a'', 10), (CHR ''b'', 11), (CHR ''c'', 12), (CHR ''d'', 13), (CHR ''e'', 14),
         (CHR ''f'', 15), (CHR ''A'', 10), (CHR ''B'', 11), (CHR ''C'', 12), (CHR ''D'', 13),
         (CHR ''E'', 14), (CHR ''F'', 15)] c of
        Some d \<Rightarrow> d
      | None \<Rightarrow> 36)"

definition is_digit :: "int \<Rightarrow> char \<Rightarrow> bool" where
  "is_digit radix c = (digit_of c < radix)"

definition digits_value :: "int \<Rightarrow> string \<Rightarrow> int" where
  "digits_value radix z = foldl (\<lambda>a c. a * radix + digit_of c) 0 z"

text \<open>\<open>parseInt(s)\<close> with no radix argument.\<close>

definition parse_int_digits :: "int \<Rightarrow> string \<Rightarrow> number" where
  "parse_int_digits radix v =
     (if takeWhile (is_digit radix) v = [] then NaN
      else round_double (of_int (digits_value radix (takeWhile (is_digit radix) v))))"

definition parse_int_radix :: "string \<Rightarrow> number" where
  "parse_int_radix u =
     (if take 2 u = ''0x'' \<or> take 2 u = ''0X'' then parse_int_digits 16 (drop 2 u)
      else parse_int_digits 10 u)"

fun parse_int_signed :: "string \<Rightarrow> number" where
  "parse_int_signed [] = NaN"
| "parse_int_signed (c # r) =
     (if c = CHR ''-'' then js_neg (parse_int_radix r)
      else if c = CHR ''+'' then parse_int_radix r
      else parse_int_radix (c # r))"

definition parseInt :: "string \<Rightarrow> number" where
  "parseInt s = parse_int_signed (dropWhile is_ws s)"

text \<open>\<open>parseFloat(s)\<close>: the longest prefix that is a decimal literal.\<close>

definition exp_digits :: "int \<Rightarrow> string \<Rightarrow> int" where
  "exp_digits sg d =
     (if takeWhile (is_digit 10) d = [] then 0
      else sg * digits_value 10 (takeWhile (is_digit 10) d))"

fun exp_signed :: "string \<Rightarrow> int" where
  "exp_signed [] = 0"
| "exp_signed (c # d) =
     (if c = CHR ''-'' then exp_digits (- 1) d
      else if c = CHR ''+'' then exp_digits 1 d
      else exp_digits 1 (c # d))"

fun parse_exp :: "string \<Rightarrow> int" where
  "parse_exp [] = 0"
| "parse_exp (c # r) = (if c = CHR ''e'' \<or> c = CHR ''E'' then exp_signed r else 0)"

definition parse_mantissa :: "string \<Rightarrow> string \<Rightarrow> string \<Rightarrow> number" where
  "parse_mantissa ip fp rest =
     (if ip = [] \<and> fp = [] then NaN
      else round_double (of_int (digits_value 10 (ip @ fp)) * ipow 10 (parse_exp rest - int (length fp))))"

fun parse_fraction :: "string \<Rightarrow> string \<Rightarrow> number" where
  "parse_fraction ip [] = parse_mantissa ip [] []"
| "parse_fraction ip (c # r) =
     (if c = CHR ''.'' then parse_mantissa ip (takeWhile (is_digit 10) r) (dropWhile (is_digit 10) r)
      else parse_mantissa ip [] (c # r))"

definition parse_unsigned :: "string \<Rightarrow> number" where
  "parse_unsigned u =
     (if take 8 u = ''Infinity'' then PosInf
      else parse_fraction (takeWhile (is_digit 10) u) (dropWhile (is_digit 10) u))"

fun parse_float_signed :: "string \<Rightarrow> number" where
  "parse_float_signed [] = NaN"
| "parse_float_signed (c # r) =
     (if c = CHR ''-'' then js_neg (parse_unsigned r)
      else if c = CHR ''+'' then parse_unsigned r
      else parse_unsigned (c # r))"

definition parseFloat :: "string \<Rightarrow> number" where
  "parseFloat s = parse_float_signed (dropWhile is_ws s)"

text \<open>\<open>s.slice(-n)\<close> and \<open>s.padStart(n, c)\<close>.\<close>

definition slice_last :: "nat \<Rightarrow> string \<Rightarrow> string" where
  "slice_last n s = drop (length s - n) s"

definition padStart :: "nat \<Rightarrow> char \<Rightarrow> string \<Rightarrow> string" where
  "padStart n c s = replicate (n - length s) c @ s"

section \<open>Schema (src/shared/schema.ts)\<close>

text \<open>
  One record per table row. \<open>serial\<close> ids are integers, \<open>decimal(10, 2)\<close> columns hold
  the string the application wrote (the server reads them back with \<open>parseFloat\<close>), and
  \<open>createdAt\<close> (\<open>defaultNow()\<close>) is a reading of a logical clock that advances with every
  insertion.
\<close>

record user =
  u_id :: int
  u_username :: string
  u_password :: string
  u_balance :: string
  u_createdAt :: nat

record gameRound =
  r_id :: int
  r_periodNumber :: string
  r_result :: string
  r_number :: int
  r_createdAt :: nat

record bet =
  b_id :: int
  b_userId :: int
  b_roundId :: int
  b_betType :: string
  b_betValue :: string
  b_amount :: string
  b_payout :: string
  b_status :: string
  b_createdAt :: nat

record insertUser =
  iu_username :: string
  iu_password :: string




section \<open>Storage (src/server/storage.ts)\<close>

text \<open>
  The database: the three tables in insertion order, the next value of each \<open>serial\<close>
  sequence, the logical clock, and a fault schedule. Every storage call consumes one entry
  of the schedule; \<open>True\<close> makes the call throw without touching the tables (a lost
  connection, a rejected statement). An exhausted schedule means no further faults.
\<close>

datatype db_error = Unavailable | UniqueViolation | ForeignKeyViolation | InvalidInput

record db =
  users :: "user list"
  gameRounds :: "gameRound list"
  bets :: "bet list"
  next_user_id :: int
  next_round_id :: int
  next_bet_id :: int
  clock :: nat
  faults :: "bool list"

definition attempt :: "(db \<Rightarrow> (db_error + 'a) \<times> db) \<Rightarrow> db \<Rightarrow> (db_error + 'a) \<times> db" where
  "attempt f d =
     (case faults d of
        [] \<Rightarrow> f d
      | fault # fs \<Rightarrow>
          if fault then (Inl Unavailable, d\<lparr>faults := fs\<rparr>) else f (d\<lparr>faults := fs\<rparr>))"

definition getUser :: "int \<Rightarrow> db \<Rightarrow> (db_error + user option) \<times> db" where
  "getUser i = attempt (\<lambda>d. (Inr (find (\<lambda>u. u_id u = i) (users d)), d))"

definition createUser :: "insertUser \<Rightarrow> db \<Rightarrow> (db_error + user) \<times> db" where
  "createUser iu = attempt (\<lambda>d.
     if iu_username iu \<in> set (map u_username (users d)) then (Inl UniqueViolation, d)
     else (Inr \<lparr>u_id = next_user_id d, u_username = iu_username iu,
                u_password = iu_password iu, u_balance = ''50.00'', u_createdAt = clock d\<rparr>,
           d\<lparr>users := users d @
                [\<lparr>u_id = next_user_id d, u_username = iu_username iu,
                  u_password = iu_password iu, u_balance = ''50.00'', u_createdAt = clock d\<rparr>],
             next_user_id := next_user_id d + 1, clock := clock d + 1\<rparr>))"

definition updateUserBalance :: "int \<Rightarrow> string \<Rightarrow> db \<Rightarrow> (db_error + unit) \<times> db" where
  "updateUserBalance userId newBalance = attempt (\<lambda>d.
     (Inr (), d\<lparr>users := map (\<lambda>u. if u_id u = userId then u\<lparr>u_balance := newBalance\<rparr> else u)
                               (users d)\<rparr>))"



definition recent_first :: "gameRound list \<Rightarrow> gameRound list" where
  "recent_first rs = rev (sort_key r_createdAt rs)"

definition getCurrentRound :: "db \<Rightarrow> (db_error + gameRound option) \<times> db" where
  "getCurrentRound = attempt (\<lambda>d.
     (Inr (case take 1 (recent_first (gameRounds d)) of [] \<Rightarrow> None | r # _ \<Rightarrow> Some r), d))"

definition getRecentRounds :: "nat \<Rightarrow> db \<Rightarrow> (db_error + gameRound list) \<times> db" where
  "getRecentRounds limit = attempt (\<lambda>d. (Inr (take limit (recent_first (gameRounds d))), d))"


definition getBetsByRoundId :: "int \<Rightarrow> db \<Rightarrow> (db_error + bet list) \<times> db" where
  "getBetsByRoundId roundId = attempt (\<lambda>d. (Inr (filter (\<lambda>b. b_roundId b = roundId) (bets d)), d))"

definition updateBetResult :: "int \<Rightarrow> string \<Rightarrow> string \<Rightarrow> db \<Rightarrow> (db_error + unit) \<times> db" where
  "updateBetResult betId status payout = attempt (\<lambda>d.
     (Inr (), d\<lparr>bets := map (\<lambda>b. if b_id b = betId then b\<lparr>b_payout := payout, b_status := status\<rparr> else b)
                              (bets d)\<rparr>))"

section \<open>The live game engine (src/server/routes.ts)\<close>

record engine =
  currentRoundId :: "int option"
  currentSequence :: number

record result =
  res_color :: string
  res_number :: number

definition basePeriodNumber :: string where
  "basePeriodNumber = ''127927270''"

definition initial_engine :: engine where
  "initial_engine = \<lparr>currentRoundId = None, currentSequence = Fin 867\<rparr>"

text \<open>
  \<open>initializeSequence\<close>: seed the counter from the last three characters of the newest
  period label; a failing read is logged and leaves the default.
\<close>

definition initializeSequence :: "engine \<Rightarrow> db \<Rightarrow> engine \<times> db" where
  "initializeSequence eng d =
     (case getRecentRounds 1 d of
        (Inl e, d') \<Rightarrow> (eng, d')
      | (Inr [], d') \<Rightarrow> (eng, d')
      | (Inr (latest # _), d') \<Rightarrow>
          (eng\<lparr>currentSequence := parseInt (slice_last 3 (r_periodNumber latest))\<rparr>, d'))"

definition wrap_sequence :: "number \<Rightarrow> number" where
  "wrap_sequence c = (if js_lt (Fin 999) c then Fin 0 else c)"

definition generatePeriodNumber :: "engine \<Rightarrow> string \<times> engine" where
  "generatePeriodNumber eng =
     (basePeriodNumber @
        padStart 3 CHR ''0'' (js_toString (wrap_sequence (js_add (currentSequence eng) (Fin 1)))),
      eng\<lparr>currentSequence := wrap_sequence (js_add (currentSequence eng) (Fin 1))\<rparr>)"

text \<open>
  \<open>generateResult\<close>: \<open>r1\<close> and \<open>r2\<close> are the values of the two \<open>Math.random()\<close> calls
  (the second one is only made for the numbers 0 and 5).
\<close>

definition result_color :: "number \<Rightarrow> number \<Rightarrow> string" where
  "result_color n r2 =
     (if js_strict_eq n (Fin 0) then (if js_lt r2 (Fin (1 / 2)) then ''red'' else ''violet'')
      else if js_strict_eq n (Fin 5) then (if js_lt r2 (Fin (1 / 2)) then ''green'' else ''violet'')
      else if n \<in> set [Fin 1, Fin 3, Fin 7, Fin 9] then ''green''
      else ''red'')"

definition generateResult :: "number \<Rightarrow> number \<Rightarrow> result" where
  "generateResult r1 r2 =
     \<lparr>res_color = result_color (js_floor (js_mul r1 (Fin 10))) r2,
      res_number = js_floor (js_mul r1 (Fin 10))\<rparr>"

text \<open>
  \<open>processRoundResult\<close>. \<open>bet_won\<close> and \<open>bet_multiplier\<close> are the loop's variables
  \<open>won\<close> and \<open>multiplier\<close> once the two branches have run; 1.95 is the binary64 literal.
\<close>

definition bet_won :: "bet \<Rightarrow> result \<Rightarrow> bool" where
  "bet_won b res =
     (if b_betType b = ''color'' then b_betValue b = res_color res
      else if b_betType b = ''number'' then js_strict_eq (parseInt (b_betValue b)) (res_number res)
      else False)"

definition bet_multiplier :: "bet \<Rightarrow> result \<Rightarrow> number" where
  "bet_multiplier b res =
     (if b_betType b = ''color'' then
        (if b_betValue b = res_color res
         then (if res_color res = ''violet'' then Fin (9 / 2) else round_double (195 / 100))
         else Fin 0)
      else if b_betType b = ''number'' then
        (if js_strict_eq (parseInt (b_betValue b)) (res_number res) then Fin 9 else Fin 0)
      else Fin 0)"

definition bet_payout :: "bet \<Rightarrow> result \<Rightarrow> string" where
  "bet_payout b res =
     (if bet_won b res then js_toString (js_mul (parseFloat (b_amount b)) (bet_multiplier b res))
      else ''0.00'')"

definition bet_status :: "bet \<Rightarrow> result \<Rightarrow> string" where
  "bet_status b res = (if bet_won b res then ''won'' else ''lost'')"

definition credited_balance :: "string \<Rightarrow> string \<Rightarrow> string" where
  "credited_balance balance payout = js_toString (js_add (parseFloat balance) (parseFloat payout))"

text \<open>One iteration of the loop over the round's bets; \<open>Inl\<close> is a thrown error.\<close>

definition settle_bet :: "result \<Rightarrow> bet \<Rightarrow> db \<Rightarrow> (db_error + unit) \<times> db" where
  "settle_bet res b d =
     (case updateBetResult (b_id b) (bet_status b res) (bet_payout b res) d of
        (Inl e, d1) \<Rightarrow> (Inl e, d1)
      | (Inr _, d1) \<Rightarrow>
          if bet_won b res then
            (case getUser (b_userId b) d1 of
               (Inl e, d2) \<Rightarrow> (Inl e, d2)
             | (Inr None, d2) \<Rightarrow> (Inr (), d2)
             | (Inr (Some u), d2) \<Rightarrow>
                 updateUserBalance (b_userId b)
                   (credited_balance (u_balance u) (bet_payout b res)) d2)
          else (Inr (), d1))"

fun settle_bets :: "result \<Rightarrow> bet list \<Rightarrow> db \<Rightarrow> (db_error + unit) \<times> db" where
  "settle_bets res [] d = (Inr (), d)"
| "settle_bets res (b # bs) d =
     (case settle_bet res b d of
        (Inl e, d') \<Rightarrow> (Inl e, d')
      | (Inr _, d') \<Rightarrow> settle_bets res bs d')"

text \<open>
  The whole body runs in \<open>try\<close>/\<open>catch\<close>: an error is logged (\<open>Some e\<close>) and the function
  returns normally.
\<close>

definition processRoundResult :: "int \<Rightarrow> result \<Rightarrow> db \<Rightarrow> db_error option \<times> db" where
  "processRoundResult roundId res d =
     (case getBetsByRoundId roundId d of
        (Inl e, d1) \<Rightarrow> (Some e, d1)
      | (Inr bs, d1) \<Rightarrow>
          (case settle_bets res bs d1 of
             (Inl e, d2) \<Rightarrow> (Some e, d2)
           | (Inr _, d2) \<Rightarrow> (None, d2)))"




section \<open>The bet route (src/server/routes.ts, POST /api/game/bet)\<close>

datatype body = ErrorBody string | BetPlaced bet string

datatype response = Response int body


text \<open>
  \<open>validate\<close> stands for \<open>insertBetSchema.parse\<close> (generated by drizzle-zod, not part of
  the sources): \<open>None\<close> when it throws. Every thrown error ends in the handler's \<open>catch\<close>.
\<close>

definition failed_to_place :: response where
  "failed_to_place = Response 500 (ErrorBody ''Failed to place bet'')"


section \<open>Notions of the specification\<close>

text \<open>A counter value zero-padded to three digits: hundreds, tens, units.\<close>

definition pad3 :: "int \<Rightarrow> string" where
  "pad3 n = [digit_char (n div 100), digit_char (n div 10 mod 10), digit_char (n mod 10)]"

text \<open>\<open>k\<close> successive calls of the sequencer: the labels issued, in order, and the engine left.\<close>

fun issue :: "nat \<Rightarrow> engine \<Rightarrow> string list \<times> engine" where
  "issue 0 eng = ([], eng)"
| "issue (Suc k) eng =
     (fst (generatePeriodNumber eng) # fst (issue k (snd (generatePeriodNumber eng))),
      snd (issue k (snd (generatePeriodNumber eng))))"

definition label_ok :: "int \<Rightarrow> bool" where
  "label_ok n = (padStart 3 CHR ''0'' (js_toString (Fin (of_int n))) = pad3 n)"

text \<open>What a storage call that only reads leaves alone: everything but the fault schedule.\<close>

definition tables_unchanged :: "db \<Rightarrow> db \<Rightarrow> bool" where
  "tables_unchanged d d' = (users d' = users d \<and> gameRounds d' = gameRounds d \<and> bets d' = bets d
     \<and> next_user_id d' = next_user_id d \<and> next_round_id d' = next_round_id d
     \<and> next_bet_id d' = next_bet_id d \<and> clock d' = clock d)"

text \<open>A bet row once settled against an outcome, and the credit of one bet to the users table.\<close>

definition settled :: "result \<Rightarrow> bet \<Rightarrow> bet" where
  "settled res b = b\<lparr>b_payout := bet_payout b res, b_status := bet_status b res\<rparr>"

definition credit :: "result \<Rightarrow> user list \<Rightarrow> bet \<Rightarrow> user list" where
  "credit res us b =
     (if bet_won b res then
        (case find (\<lambda>u. u_id u = b_userId b) us of
           None \<Rightarrow> us
         | Some u \<Rightarrow>
             map (\<lambda>u'. if u_id u' = b_userId b
                        then u'\<lparr>u_balance := credited_balance (u_balance u) (bet_payout b res)\<rparr>
                        else u') us)
      else us)"

text \<open>The rows \<open>updateBetResult\<close> rewrites for one bet.\<close>

definition update_row :: "result \<Rightarrow> bet \<Rightarrow> bet list \<Rightarrow> bet list" where
  "update_row res b tbl =
     map (\<lambda>x. if b_id x = b_id b then x\<lparr>b_payout := bet_payout b res, b_status := bet_status b res\<rparr> else x) tbl"

text \<open>
  What \<open>Math.random()\<close> returns: a binary64 value \<open>u\<close> with \<open>0 \<le> u < 1\<close>.
\<close>

fun unit_random :: "number \<Rightarrow> bool" where
  "unit_random (Fin u) = (0 \<le> u \<and> u < 1 \<and> round_double u = Fin u)"
| "unit_random r = False"



definition accepted :: "response \<Rightarrow> bool" where
  "accepted resp = (case resp of Response code (BetPlaced b msg) \<Rightarrow> code = 200 | _ \<Rightarrow> False)"



text \<open>Sample data.\<close>

definition empty_db :: db where
  "empty_db = \<lparr>users = [], gameRounds = [], bets = [], next_user_id = 1, next_round_id = 1,
     next_bet_id = 1, clock = 0, faults = []\<rparr>"

definition red_bet :: bet where
  "red_bet = \<lparr>b_id = 1, b_userId = 7, b_roundId = 1, b_betType = ''color'', b_betValue = ''red'',
     b_amount = ''10.00'', b_payout = ''0.00'', b_status = ''pending'', b_createdAt = 2\<rparr>"

definition red_two :: result where
  "red_two = \<lparr>res_color = ''red'', res_number = Fin 2\<rparr>"

definition orphan_db :: db where
  "orphan_db = \<lparr>users = [], gameRounds = [], bets = [red_bet], next_user_id = 1,
     next_round_id = 1, next_bet_id = 2, clock = 2, faults = []\<rparr>"

definition seven_bet :: bet where
  "seven_bet = \<lparr>b_id = 2, b_userId = 1, b_roundId = 1, b_betType = ''number'', b_betValue = ''7'',
     b_amount = ''10.00'', b_payout = ''0.00'', b_status = ''pending'', b_createdAt = 2\<rparr>"

definition violet_seven :: result where
  "violet_seven = \<lparr>res_color = ''violet'', res_number = Fin 7\<rparr>"









section \<open>Evaluation\<close>

lemma floor_rat_numeral_div [simp]:
  "\<lfloor>(numeral a / numeral b :: rat)\<rfloor> = numeral a div numeral b"
  by (metis floor_divide_of_int_eq of_int_numeral)

lemma floor_rat_neg_numeral_div [simp]:
  "\<lfloor>(- (numeral a / numeral b) :: rat)\<rfloor> = - numeral a div numeral b"
  by (metis divide_minus_left floor_divide_of_int_eq of_int_neg_numeral of_int_numeral)

lemma floor_rat_one_div [simp]:
  "\<lfloor>(1 / numeral b :: rat)\<rfloor> = 1 div numeral b"
  by (metis floor_divide_of_int_eq of_int_1 of_int_numeral)

lemmas num_eval = ilog_up.simps ilog_down.simps digits10.simps ipow_def ilog_def half_even_def round_half_even_def quantum_def round_to_def
  with_sign_def round_double_def js_sub_def js_strict_eq_def inf_of_sign_def digit_char_def
  decimal_def upper_candidate_def candidates_def nearer_def exponent_part_def
  format_digits_def pos_toString_def

lemmas str_eval = is_ws_def digit_of_def is_digit_def digits_value_def parse_int_digits_def
  parse_int_radix_def parseInt_def exp_digits_def parse_mantissa_def parse_unsigned_def
  parseFloat_def slice_last_def padStart_def

section \<open>Rounding is exact on integers\<close>

lemma ilog_up_bounds:
  "2 \<le> b \<Longrightarrow> 1 \<le> x \<Longrightarrow>
     0 \<le> ilog_up b x \<and> of_int b ^ nat (ilog_up b x) \<le> x \<and> x < of_int b ^ Suc (nat (ilog_up b x))"
proof (induction b x rule: ilog_up.induct)
  case (1 b x)
  have bpos: "(0::rat) < of_int b" using "1.prems" by simp
  show ?case
  proof (cases "x < of_int b")
    case True
    then show ?thesis using "1.prems" by (simp add: ilog_up.simps[of b x])
  next
    case False
    then have c: "\<not> (x < of_int b \<or> b < 2)" using "1.prems" by simp
    have x1: "1 \<le> x / of_int b" using False bpos by (simp add: pos_le_divide_eq)
    note IH = "1.IH"[OF c "1.prems"(1) x1]
    let ?e = "ilog_up b (x / of_int b)"
    have eq: "ilog_up b x = 1 + ?e" using c by (subst ilog_up.simps) simp
    have n: "nat (1 + ?e) = Suc (nat ?e)" using IH by (simp add: Suc_nat_eq_nat_zadd1)
    have lo: "of_int b ^ Suc (nat ?e) \<le> x"
      using IH bpos by (simp add: pos_le_divide_eq mult.commute)
    have hi: "x < of_int b ^ Suc (Suc (nat ?e))"
      using IH bpos by (simp add: pos_divide_less_eq mult.commute)
    show ?thesis using IH lo hi by (simp add: eq n)
  qed
qed

lemma round_half_even_of_int: "round_half_even (of_int m) = m"
  by (simp add: round_half_even_def half_even_def)

lemma round_to_quantum_of_int:
  assumes "1 \<le> n" "n < 2 ^ 53"
  shows "round_to (quantum (of_int n)) (of_int n) = of_int n"
proof -
  let ?x = "of_int n :: rat"
  have x1: "1 \<le> ?x" using assms by simp
  let ?e = "ilog_up 2 ?x"
  have B: "0 \<le> ?e \<and> 2 ^ nat ?e \<le> ?x \<and> ?x < 2 ^ Suc (nat ?e)"
    using ilog_up_bounds[of 2 ?x] x1 by simp
  have e0: "0 \<le> ?e" using B by simp
  have "(2::rat) ^ nat ?e \<le> of_int n" using B by simp
  also have "\<dots> < 2 ^ 53" using assms(2) by (metis of_int_less_iff of_int_numeral of_int_power)
  finally have lt: "(2::rat) ^ nat ?e < 2 ^ 53" .
  have "nat ?e < 53" by (rule power_less_imp_less_exp[OF _ lt]) simp
  then have e52: "?e \<le> 52" by simp
  define d where "d = nat (52 - ?e)"
  have q: "quantum ?x = 1 / 2 ^ d"
  proof (cases "?e = 52")
    case True
    then show ?thesis using x1 by (simp add: quantum_def ilog_def ipow_def d_def)
  next
    case False
    then have "?e - 52 < 0" using e52 by simp
    then show ?thesis using x1 e0 by (simp add: quantum_def ilog_def ipow_def d_def max_def)
  qed
  have "?x / (1 / 2 ^ d) = of_int (n * 2 ^ d)" using x1 by simp
  then show ?thesis
    unfolding round_to_def q by (simp only: round_half_even_of_int) simp
qed

lemma round_double_of_int:
  assumes "\<bar>n\<bar> < 2 ^ 53"
  shows "round_double (of_int n) = Fin (of_int n)"
proof (cases "n = 0")
  case True
  then show ?thesis by (simp add: round_double_def)
next
  case False
  let ?m = "\<bar>n\<bar>"
  have m: "1 \<le> ?m" "?m < 2 ^ 53" using False assms by auto
  have absx: "\<bar>of_int n :: rat\<bar> = of_int ?m" by simp
  have "(of_int ?m :: rat) < 2 ^ 53"
    using m(2) by (metis of_int_less_iff of_int_numeral of_int_power)
  also have "\<dots> < (2::rat) ^ 1024" by simp
  finally have small: "\<not> ipow 2 1024 \<le> (of_int ?m :: rat)" by (simp add: ipow_def)
  have nz: "(of_int n :: rat) \<noteq> 0" using False by simp
  show ?thesis
    unfolding round_double_def absx round_to_quantum_of_int[OF m] with_sign_def
    using nz small False by (auto simp del: of_int_abs)
qed

lemma round_double_numeral [simp]:
  "numeral k < (2::int) ^ 53 \<Longrightarrow> round_double (numeral k) = Fin (numeral k)"
  using round_double_of_int[of "numeral k"] by simp

lemma round_double_one [simp]: "round_double 1 = Fin 1"
  using round_double_of_int[of 1] by simp

lemma next_sequence:
  assumes "0 \<le> n" "n \<le> 999"
  shows "wrap_sequence (js_add (Fin (of_int n)) (Fin 1)) = Fin (of_int (if n = 999 then 0 else n + 1))"
proof -
  have "js_add (Fin (of_int n)) (Fin 1) = round_double (of_int (n + 1))" by simp
  also have "\<dots> = Fin (of_int (n + 1))" using assms by (intro round_double_of_int) simp
  finally show ?thesis using assms by (auto simp: wrap_sequence_def)
qed

lemmas label_eval = upto.simps ilog_up.simps ilog_down.simps digits10.simps label_ok_def
  pad3_def padStart_def ipow_def ilog_def digit_char_def
  decimal_def upper_candidate_def candidates_def nearer_def format_digits_def pos_toString_def
  eval_nat_numeral

lemma labels_0: "list_all label_ok [0..99]" by (simp add: label_eval split del: if_split)
lemma labels_1: "list_all label_ok [100..199]" by (simp add: label_eval split del: if_split)
lemma labels_2: "list_all label_ok [200..299]" by (simp add: label_eval split del: if_split)
lemma labels_3: "list_all label_ok [300..399]" by (simp add: label_eval split del: if_split)
lemma labels_4: "list_all label_ok [400..499]" by (simp add: label_eval split del: if_split)
lemma labels_5: "list_all label_ok [500..599]" by (simp add: label_eval split del: if_split)
lemma labels_6: "list_all label_ok [600..699]" by (simp add: label_eval split del: if_split)
lemma labels_7: "list_all label_ok [700..799]" by (simp add: label_eval split del: if_split)
lemma labels_8: "list_all label_ok [800..899]" by (simp add: label_eval split del: if_split)
lemma labels_9: "list_all label_ok [900..999]" by (simp add: label_eval split del: if_split)

lemma label_of_sequence:
  assumes "0 \<le> n" "n \<le> 999"
  shows "padStart 3 CHR ''0'' (js_toString (Fin (of_int n))) = pad3 n"
proof -
  have "n \<in> set [0..99] \<union> set [100..199] \<union> set [200..299] \<union> set [300..399] \<union> set [400..499]
          \<union> set [500..599] \<union> set [600..699] \<union> set [700..799] \<union> set [800..899] \<union> set [900..999]"
    using assms by (simp only: set_upto Un_iff atLeastAtMost_iff) presburger
  then have "label_ok n"
    using labels_0 labels_1 labels_2 labels_3 labels_4 labels_5 labels_6 labels_7 labels_8 labels_9
    unfolding list_all_iff by blast
  then show ?thesis by (simp add: label_ok_def)
qed

lemma generatePeriodNumber_int:
  assumes "0 \<le> n" "n \<le> 999" "currentSequence eng = Fin (of_int n)"
  shows "generatePeriodNumber eng =
           (basePeriodNumber @ pad3 (if n = 999 then 0 else n + 1),
            eng\<lparr>currentSequence := Fin (of_int (if n = 999 then 0 else n + 1))\<rparr>)"
proof -
  have r: "0 \<le> (if n = 999 then 0 else n + 1)" "(if n = 999 then 0 else n + 1) \<le> 999"
    using assms by auto
  show ?thesis
    unfolding generatePeriodNumber_def assms(3) next_sequence[OF assms(1,2)]
      label_of_sequence[OF r] ..
qed


section \<open>Rounding error and the random digit\<close>

lemma half_even_error: "\<bar>of_int (round_half_even z) - z\<bar> \<le> 1 / 2"
proof -
  have f: "of_int \<lfloor>z\<rfloor> \<le> z" "z < of_int \<lfloor>z\<rfloor> + 1" by linarith+
  show ?thesis
    unfolding round_half_even_def half_even_def using f
    by (auto simp: abs_le_iff)
qed

lemma round_half_even_nonneg: "0 \<le> z \<Longrightarrow> 0 \<le> round_half_even z"
  unfolding round_half_even_def half_even_def by (auto simp: le_floor_iff)

lemma round_half_even_below:
  assumes "z < of_int k + 1 / 2"
  shows "round_half_even z \<le> k"
proof -
  have "of_int (round_half_even z) - z \<le> 1 / 2" using half_even_error[of z] by linarith
  then have "(of_int (round_half_even z) :: rat) < of_int k + 1" using assms by linarith
  then have "(of_int (round_half_even z) :: rat) < of_int (k + 1)" by simp
  then have "round_half_even z < k + 1" by (simp only: of_int_less_iff)
  then show ?thesis by simp
qed

lemma ipow2_pos: "0 < ipow 2 k"
  by (simp add: ipow_def)

lemma ipow2_le_one: "k \<le> 0 \<Longrightarrow> ipow 2 k \<le> 1"
  by (auto simp: ipow_def divide_le_eq)

lemma round_to_error: "0 < q \<Longrightarrow> \<bar>round_to q x - x\<bar> \<le> q / 2"
proof -
  assume q: "0 < q"
  have "round_to q x - x = (of_int (round_half_even (x / q)) - x / q) * q"
    using q by (simp add: round_to_def field_simps)
  then have "\<bar>round_to q x - x\<bar> = \<bar>of_int (round_half_even (x / q)) - x / q\<bar> * q"
    using q by (simp add: abs_mult)
  also have "\<dots> \<le> (1 / 2) * q"
    using half_even_error[of "x / q"] q by (intro mult_right_mono) auto
  finally show ?thesis by simp
qed

lemma round_to_nonneg: "0 < q \<Longrightarrow> 0 \<le> x \<Longrightarrow> 0 \<le> round_to q x"
  unfolding round_to_def by (intro mult_nonneg_nonneg) (auto intro: round_half_even_nonneg)

lemma ilog_down_le: "ilog_down b x \<le> 0"
proof (induction b x rule: ilog_down.induct)
  case (1 b x)
  show ?case
  proof (cases "1 \<le> x \<or> x \<le> 0 \<or> b < 2")
    case True
    then show ?thesis by (subst ilog_down.simps) simp
  next
    case False
    have "ilog_down b x = ilog_down b (x * of_int b) - 1"
      using False by (subst ilog_down.simps) simp
    then show ?thesis using "1.IH"[OF False] by simp
  qed
qed

lemma ilog2_small:
  assumes "0 < x" "x < 8"
  shows "ilog 2 x \<le> 2"
proof (cases "1 \<le> x")
  case True
  let ?e = "ilog_up 2 x"
  have B: "0 \<le> ?e \<and> 2 ^ nat ?e \<le> x \<and> x < 2 ^ Suc (nat ?e)"
    using ilog_up_bounds[of 2 x] True by simp
  then have "(2::rat) ^ nat ?e < 2 ^ 3" using assms by simp
  then have "nat ?e < 3" by (rule power_less_imp_less_exp[rotated]) simp
  then show ?thesis using True by (simp add: ilog_def)
next
  case False
  then show ?thesis using ilog_down_le[of 2 x] by (simp add: ilog_def)
qed

lemma round_double_small:
  assumes "0 < x" "x < 8"
  shows "\<exists>y. round_double x = Fin y \<and> 0 \<le> y \<and> y < 9"
proof -
  let ?q = "quantum x"
  have qpos: "0 < ?q" by (simp add: quantum_def ipow2_pos)
  have "max (ilog 2 x) (- 1022) - 52 \<le> 0" using ilog2_small[OF assms] by simp
  then have q1: "?q \<le> 1" unfolding quantum_def by (rule ipow2_le_one)
  let ?r = "round_to ?q x"
  have "\<bar>?r - x\<bar> \<le> ?q / 2" by (rule round_to_error[OF qpos])
  then have r9: "?r < 9" using q1 assms by linarith
  have r0: "0 \<le> ?r" using assms by (intro round_to_nonneg[OF qpos]) simp
  have "(9::rat) < 2 ^ 1024" by simp
  then have "\<not> ipow 2 1024 \<le> ?r" using r9 by (simp add: ipow_def)
  then have "round_double x = Fin ?r"
    using assms by (simp add: round_double_def with_sign_def)
  then show ?thesis using r0 r9 by blast
qed

lemma unit_double_below_one:
  assumes "1 / 2 \<le> u" "u < 1" "round_double u = Fin u"
  shows "u \<le> 1 - 1 / 2 ^ 53"
proof -
  have e: "ilog 2 u = - 1"
    using assms by (simp add: ilog_def ilog_down.simps[of 2 u] ilog_down.simps[of 2 "u * 2"])
  have q: "quantum u = 1 / 2 ^ 53" by (simp add: quantum_def e ipow_def)
  let ?m = "round_half_even (u / (1 / 2 ^ 53))"
  have "(2::rat) ^ 53 < 2 ^ 1024" by simp
  then have "\<not> ipow 2 1024 \<le> round_to (1 / 2 ^ 53) u \<Longrightarrow> True" by simp
  have "round_double u = with_sign u (round_to (1 / 2 ^ 53) u)"
    using assms by (simp add: round_double_def q)
  then have "with_sign u (round_to (1 / 2 ^ 53) u) = Fin u" using assms(3) by simp
  then have "round_to (1 / 2 ^ 53) u = u"
    using assms by (auto simp: with_sign_def split: if_splits)
  then have u: "u = of_int ?m / 2 ^ 53" by (simp add: round_to_def)
  then have "of_int ?m / 2 ^ 53 < (1::rat)" using assms by simp
  then have "(of_int ?m :: rat) < 2 ^ 53" by (simp add: divide_less_eq)
  then have "(of_int ?m :: rat) < of_int (2 ^ 53)" by simp
  then have "?m < 2 ^ 53" by (simp only: of_int_less_iff)
  then have "?m \<le> 2 ^ 53 - 1" by simp
  then have "(of_int ?m :: rat) \<le> of_int (2 ^ 53 - 1)" by (simp only: of_int_le_iff)
  then have "(of_int ?m :: rat) / 2 ^ 53 \<le> of_int (2 ^ 53 - 1) / 2 ^ 53"
    by (simp add: divide_right_mono)
  then show ?thesis by (subst u) (simp add: field_simps)
qed

lemma round_double_below_ten:
  assumes "8 \<le> x" "x \<le> 10 - 10 / 2 ^ 53"
  shows "\<exists>y. round_double x = Fin y \<and> 8 \<le> y \<and> y < 10"
proof -
  have x10: "x < 10" using assms(2) by simp
  have e: "ilog 2 x = 3"
    using assms(1) x10
    by (simp add: ilog_def ilog_up.simps[of 2 x] ilog_up.simps[of 2 "x / 2"]
        ilog_up.simps[of 2 "x / 4"] ilog_up.simps[of 2 "x / 8"])
  have q: "quantum x = 1 / 2 ^ 49" by (simp add: quantum_def e ipow_def)
  let ?z = "x / (1 / 2 ^ 49)"
  let ?m = "round_half_even ?z"
  have z: "?z = x * 2 ^ 49" by simp
  have "x * 2 ^ 49 \<le> (10 - 10 / 2 ^ 53) * 2 ^ 49" using assms(2) by (simp only: mult_le_cancel_right) simp
  also have "\<dots> < of_int (10 * 2 ^ 49 - 1) + 1 / 2" by simp
  finally have "?m \<le> 10 * 2 ^ 49 - 1" unfolding z[symmetric] by (rule round_half_even_below)
  then have "(of_int ?m :: rat) \<le> of_int (10 * 2 ^ 49 - 1)" by (simp only: of_int_le_iff)
  then have hi: "of_int ?m * (1 / 2 ^ 49) < (10::rat)" by (simp add: field_simps)
  have "\<bar>round_to (1 / 2 ^ 49) x - x\<bar> \<le> (1 / 2 ^ 49) / 2" by (rule round_to_error) simp
  then have "x - (1 / 2 ^ 49) / 2 \<le> round_to (1 / 2 ^ 49) x" by linarith
  then have lo': "(8::rat) - (1 / 2 ^ 49) / 2 \<le> of_int ?m * (1 / 2 ^ 49)"
    using assms(1) unfolding round_to_def by linarith
  have lo: "8 \<le> of_int ?m * (1 / 2 ^ 49 :: rat)"
  proof -
    have "(8 * 2 ^ 49 - 1 / 2 :: rat) \<le> of_int ?m" using lo' by (simp add: field_simps)
    then have "(of_int (8 * 2 ^ 49 - 1) :: rat) < of_int ?m" by simp
    then have "8 * 2 ^ 49 - 1 < ?m" by (simp only: of_int_less_iff)
    then have "8 * 2 ^ 49 \<le> ?m" by simp
    then have "(of_int (8 * 2 ^ 49) :: rat) \<le> of_int ?m" by (simp only: of_int_le_iff)
    then show ?thesis by (simp add: field_simps)
  qed
  have "(10::rat) < 2 ^ 1024" by simp
  then have "\<not> ipow 2 1024 \<le> of_int ?m * (1 / 2 ^ 49)" using hi by (simp add: ipow_def)
  then have "round_double x = Fin (of_int ?m * (1 / 2 ^ 49))"
    using assms(1) by (simp add: round_double_def with_sign_def q round_to_def)
  then show ?thesis using lo hi by blast
qed

lemma random_digit:
  assumes "unit_random r1"
  shows "\<exists>n. js_floor (js_mul r1 (Fin 10)) = Fin (of_int n) \<and> 0 \<le> n \<and> n \<le> 9"
proof -
  obtain u where r1: "r1 = Fin u" and u: "0 \<le> u" "u < 1" "round_double u = Fin u"
    using assms by (cases r1) auto
  have m: "js_mul r1 (Fin 10) = round_double (u * 10)" by (simp add: r1)
  have "\<exists>y. round_double (u * 10) = Fin y \<and> 0 \<le> y \<and> y < 10"
  proof (cases "u = 0")
    case True
    then show ?thesis by (simp add: round_double_def)
  next
    case nz: False
    show ?thesis
    proof (cases "u * 10 < 8")
      case True
      then have "\<exists>y. round_double (u * 10) = Fin y \<and> 0 \<le> y \<and> y < 9"
        using u nz by (intro round_double_small) auto
      then show ?thesis by force
    next
      case False
      then have "1 / 2 \<le> u" by simp
      then have "u \<le> 1 - 1 / 2 ^ 53" using u by (intro unit_double_below_one) auto
      then have "u * 10 \<le> 10 - 10 / 2 ^ 53" by simp
      then have "\<exists>y. round_double (u * 10) = Fin y \<and> 8 \<le> y \<and> y < 10"
        using False by (intro round_double_below_ten) auto
      then show ?thesis by force
    qed
  qed
  then obtain y where y: "round_double (u * 10) = Fin y" "0 \<le> y" "y < 10" by blast
  have "0 \<le> \<lfloor>y\<rfloor>" using y(2) by simp
  moreover have "\<lfloor>y\<rfloor> \<le> 9" using y(3) by (simp add: floor_le_iff)
  ultimately show ?thesis using m y(1) by auto
qed

section \<open>Storage calls and the settlement loop\<close>

lemma tables_unchanged_refl [simp]: "tables_unchanged d d"
  by (simp add: tables_unchanged_def)

lemma tables_unchanged_faults [simp]: "tables_unchanged d (d\<lparr>faults := fs\<rparr>)"
  by (simp add: tables_unchanged_def)

lemma tables_unchanged_trans:
  "tables_unchanged a b \<Longrightarrow> tables_unchanged b c \<Longrightarrow> tables_unchanged a c"
  by (simp add: tables_unchanged_def)

lemma faults_update_id: "faults d = fs \<Longrightarrow> d\<lparr>faults := fs\<rparr> = d"
  by (cases d) auto

lemma find_Some_set: "find P xs = Some y \<Longrightarrow> P y \<and> y \<in> set xs"
  by (induction xs) (auto split: if_splits)

lemma attempt_eq:
  "attempt f d =
     (if faults d \<noteq> [] \<and> hd (faults d) then (Inl Unavailable, d\<lparr>faults := tl (faults d)\<rparr>)
      else f (d\<lparr>faults := tl (faults d)\<rparr>))"
  by (cases "faults d") (auto simp: attempt_def faults_update_id)

lemma attempt_no_fault: "faults d = [] \<Longrightarrow> attempt f d = f d"
  by (simp add: attempt_def)

lemma getUser_result:
  "getUser i d = (r, d') \<Longrightarrow>
     tables_unchanged d d' \<and> faults d' = tl (faults d)
     \<and> (r = Inl Unavailable \<or> r = Inr (find (\<lambda>u. u_id u = i) (users d)))"
  by (auto simp: getUser_def attempt_eq split: if_splits)

lemma updateUserBalance_result:
  "updateUserBalance i nb d = (r, d') \<Longrightarrow>
     faults d' = tl (faults d) \<and> bets d' = bets d \<and> gameRounds d' = gameRounds d
     \<and> (r = Inl Unavailable \<and> users d' = users d
        \<or> r = Inr () \<and> users d' = map (\<lambda>u. if u_id u = i then u\<lparr>u_balance := nb\<rparr> else u) (users d))"
  by (auto simp: updateUserBalance_def attempt_eq split: if_splits)

lemma updateBetResult_result:
  "updateBetResult i st p d = (r, d') \<Longrightarrow>
     faults d' = tl (faults d) \<and> users d' = users d \<and> gameRounds d' = gameRounds d
     \<and> (r = Inl Unavailable \<and> bets d' = bets d
        \<or> r = Inr () \<and> bets d' = map (\<lambda>b. if b_id b = i then b\<lparr>b_payout := p, b_status := st\<rparr> else b) (bets d))"
  by (auto simp: updateBetResult_def attempt_eq split: if_splits)

lemma getBetsByRoundId_result:
  "getBetsByRoundId i d = (r, d') \<Longrightarrow>
     tables_unchanged d d' \<and> faults d' = tl (faults d)
     \<and> (r = Inl Unavailable \<or> r = Inr (filter (\<lambda>b. b_roundId b = i) (bets d)))"
  by (auto simp: getBetsByRoundId_def attempt_eq split: if_splits)



lemma settle_bet_ok:
  assumes "settle_bet res b d = (Inr (), d')"
  shows "bets d' = update_row res b (bets d) \<and> users d' = credit res (users d) b
       \<and> gameRounds d' = gameRounds d"
proof -
  obtain r1 d1 where u: "updateBetResult (b_id b) (bet_status b res) (bet_payout b res) d = (r1, d1)"
    by (cases "updateBetResult (b_id b) (bet_status b res) (bet_payout b res) d") auto
  note U = updateBetResult_result[OF u]
  show ?thesis
  proof (cases r1)
    case (Inl e)
    then show ?thesis using assms u by (simp add: settle_bet_def)
  next
    case (Inr x)
    then have b1: "bets d1 = update_row res b (bets d)" "users d1 = users d" "gameRounds d1 = gameRounds d"
      using U by (auto simp: update_row_def)
    show ?thesis
    proof (cases "bet_won b res")
      case False
      then show ?thesis using assms u Inr b1 by (auto simp: settle_bet_def credit_def)
    next
      case True
      obtain r2 d2 where g: "getUser (b_userId b) d1 = (r2, d2)"
        by (cases "getUser (b_userId b) d1") auto
      note G = getUser_result[OF g]
      show ?thesis
      proof (cases r2)
        case (Inl e)
        then show ?thesis using assms u \<open>r1 = Inr x\<close> True g by (simp add: settle_bet_def)
      next
        case r2: (Inr ou)
        then have ou: "ou = find (\<lambda>u. u_id u = b_userId b) (users d)"
          using G b1 by (auto simp: tables_unchanged_def)
        have t2: "bets d2 = bets d1" "users d2 = users d1" "gameRounds d2 = gameRounds d1"
          using G by (auto simp: tables_unchanged_def)
        show ?thesis
        proof (cases ou)
          case None
          then have "d' = d2" using assms u \<open>r1 = Inr x\<close> True g r2 by (simp add: settle_bet_def)
          then show ?thesis using t2 b1 None ou True by (simp add: credit_def)
        next
          case (Some usr)
          then have w: "updateUserBalance (b_userId b)
                     (credited_balance (u_balance usr) (bet_payout b res)) d2 = (Inr (), d')"
            using assms u \<open>r1 = Inr x\<close> True g r2 by (simp add: settle_bet_def)
          note W = updateUserBalance_result[OF w]
          show ?thesis using W t2 b1 Some ou True by (auto simp: credit_def)
        qed
      qed
    qed
  qed
qed

lemma settle_bets_ok:
  "settle_bets res bs d = (Inr (), d') \<Longrightarrow>
     bets d' = foldl (\<lambda>tbl b. update_row res b tbl) (bets d) bs
     \<and> users d' = foldl (credit res) (users d) bs \<and> gameRounds d' = gameRounds d"
proof (induction bs arbitrary: d)
  case Nil
  then show ?case by simp
next
  case (Cons b bs)
  obtain r1 d1 where s: "settle_bet res b d = (r1, d1)" by (cases "settle_bet res b d") auto
  show ?case
  proof (cases r1)
    case (Inl e)
    then show ?thesis using Cons.prems s by simp
  next
    case (Inr x)
    then have s': "settle_bet res b d = (Inr (), d1)" using s by simp
    have rest: "settle_bets res bs d1 = (Inr (), d')" using Cons.prems s' by simp
    show ?thesis using Cons.IH[OF rest] settle_bet_ok[OF s'] by simp
  qed
qed

lemma map_b_id_update_row [simp]: "map b_id (update_row res b tbl) = map b_id tbl"
  by (induction tbl) (auto simp: update_row_def)

lemma fold_update_rows:
  "distinct (map b_id bs) \<Longrightarrow>
     foldl (\<lambda>tbl b. update_row res b tbl) tbl bs =
       map (\<lambda>x. case find (\<lambda>b. b_id b = b_id x) bs of
                   None \<Rightarrow> x
                 | Some b \<Rightarrow> x\<lparr>b_payout := bet_payout b res, b_status := bet_status b res\<rparr>) tbl"
proof (induction bs arbitrary: tbl)
  case Nil
  then show ?case by simp
next
  case (Cons b bs)
  have d: "distinct (map b_id bs)" and nb: "b_id b \<notin> b_id ` set bs" using Cons.prems by auto
  have none: "find (\<lambda>c. b_id c = b_id b) bs = None"
  proof (cases "find (\<lambda>c. b_id c = b_id b) bs")
    case (Some y)
    then have "b_id y = b_id b \<and> y \<in> set bs" by (rule find_Some_set)
    then show ?thesis using nb by (metis imageI)
  qed simp
  show ?case
    unfolding foldl_Cons Cons.IH[OF d]
    by (auto simp: update_row_def none split: option.splits)
qed

lemma find_in_round:
  assumes "distinct (map b_id tbl)" "x \<in> set tbl"
  shows "find (\<lambda>b. b_id b = b_id x) (filter (\<lambda>b. b_roundId b = rid) tbl)
         = (if b_roundId x = rid then Some x else None)"
proof (cases "b_roundId x = rid")
  case False
  have "\<And>b. b \<in> set tbl \<Longrightarrow> b_id b = b_id x \<Longrightarrow> b = x"
    using assms by (meson distinct_map inj_onD)
  then show ?thesis using False by (auto simp: find_None_iff)
next
  case True
  have u: "\<And>b. b \<in> set tbl \<Longrightarrow> b_id b = b_id x \<Longrightarrow> b = x"
    using assms by (meson distinct_map inj_onD)
  have "x \<in> set (filter (\<lambda>b. b_roundId b = rid) tbl)" using assms True by simp
  then obtain y where y: "find (\<lambda>b. b_id b = b_id x) (filter (\<lambda>b. b_roundId b = rid) tbl) = Some y"
    by (cases "find (\<lambda>b. b_id b = b_id x) (filter (\<lambda>b. b_roundId b = rid) tbl)")
       (auto simp: find_None_iff)
  then have "y \<in> set tbl \<and> b_id y = b_id x" by (auto dest: find_Some_set)
  then have "y = x" using u by blast
  then show ?thesis using y True by simp
qed

lemma settle_round_rows:
  assumes "distinct (map b_id tbl)"
  shows "foldl (\<lambda>t b. update_row res b t) tbl (filter (\<lambda>b. b_roundId b = rid) tbl)
         = map (\<lambda>x. if b_roundId x = rid then settled res x else x) tbl"
proof -
  have d: "distinct (map b_id (filter (\<lambda>b. b_roundId b = rid) tbl))"
    using assms by (simp add: distinct_map_filter)
  show ?thesis
    unfolding fold_update_rows[OF d]
    by (rule map_cong) (auto simp: find_in_round[OF assms] settled_def)
qed

lemma storage_no_fault:
  assumes "faults d = []"
  shows "getUser i d = (Inr (find (\<lambda>u. u_id u = i) (users d)), d)"
    and "updateUserBalance i nb d =
           (Inr (), d\<lparr>users := map (\<lambda>u. if u_id u = i then u\<lparr>u_balance := nb\<rparr> else u) (users d)\<rparr>)"
    and "updateBetResult bi st p d =
           (Inr (), d\<lparr>bets := map (\<lambda>b. if b_id b = bi then b\<lparr>b_payout := p, b_status := st\<rparr> else b) (bets d)\<rparr>)"
    and "getBetsByRoundId rid d = (Inr (filter (\<lambda>b. b_roundId b = rid) (bets d)), d)"
    and "getRecentRounds k d = (Inr (take k (recent_first (gameRounds d))), d)"
    and "getCurrentRound d =
           (Inr (case take 1 (recent_first (gameRounds d)) of [] \<Rightarrow> None | x # _ \<Rightarrow> Some x), d)"
  using assms
  by (simp_all add: getUser_def updateUserBalance_def updateBetResult_def getBetsByRoundId_def
      getRecentRounds_def getCurrentRound_def attempt_no_fault)

lemma settle_bet_no_fault:
  assumes "faults d = []"
  shows "\<exists>d'. settle_bet res b d = (Inr (), d') \<and> faults d' = []"
proof -
  let ?d1 = "d\<lparr>bets := map (\<lambda>x. if b_id x = b_id b
                 then x\<lparr>b_payout := bet_payout b res, b_status := bet_status b res\<rparr> else x) (bets d)\<rparr>"
  have f1: "faults ?d1 = []" using assms by simp
  show ?thesis
    unfolding settle_bet_def storage_no_fault(3)[OF assms]
    using storage_no_fault(1)[OF f1] storage_no_fault(2)[OF f1] assms
    by (auto split: option.splits)
qed



lemma processRoundResult_ok:
  assumes "processRoundResult rid res d = (None, d')" "distinct (map b_id (bets d))"
  shows "bets d' = map (\<lambda>b. if b_roundId b = rid then settled res b else b) (bets d)
       \<and> users d' = foldl (credit res) (users d) (filter (\<lambda>b. b_roundId b = rid) (bets d))
       \<and> gameRounds d' = gameRounds d"
proof -
  obtain r1 d1 where g: "getBetsByRoundId rid d = (r1, d1)" by (cases "getBetsByRoundId rid d") auto
  note G = getBetsByRoundId_result[OF g]
  show ?thesis
  proof (cases r1)
    case (Inl e)
    then show ?thesis using assms(1) g by (simp add: processRoundResult_def)
  next
    case (Inr bs)
    then have bs: "bs = filter (\<lambda>b. b_roundId b = rid) (bets d)" using G by auto
    have t: "bets d1 = bets d" "users d1 = users d" "gameRounds d1 = gameRounds d"
      using G by (auto simp: tables_unchanged_def)
    obtain r2 d2 where s: "settle_bets res bs d1 = (r2, d2)" by (cases "settle_bets res bs d1") auto
    have "r2 = Inr () \<and> d2 = d'"
      using assms(1) g Inr s by (cases r2) (auto simp: processRoundResult_def)
    then have "settle_bets res bs d1 = (Inr (), d')" using s by simp
    note S = settle_bets_ok[OF this]
    show ?thesis
      using S unfolding t bs settle_round_rows[OF assms(2)] by simp
  qed
qed

section \<open>Users and settlement of one bet\<close>

text \<open>
  C10. Whatever the registration input, a user that \<open>createUser\<close> creates has balance
  "50.00": the input has no balance field, and the function writes the literal. The call
  succeeds whenever the database accepts it and the username is new.
\<close>

theorem createUser_starts_with_50:
  "(createUser iu d = (Inr u, d') \<longrightarrow>
      u_balance u = ''50.00'' \<and> users d' = users d @ [u]
      \<and> u_username u = iu_username iu \<and> u_password u = iu_password iu)
   \<and> (faults d = [] \<and> iu_username iu \<notin> set (map u_username (users d)) \<longrightarrow>
      (\<exists>u d'. createUser iu d = (Inr u, d')))"
  by (auto simp: createUser_def attempt_eq split: if_splits)

theorem createUser_starts_with_50_witness:
  "fst (createUser \<lparr>iu_username = ''alice'', iu_password = ''secret''\<rparr> empty_db) =
     Inr \<lparr>u_id = 1, u_username = ''alice'', u_password = ''secret'', u_balance = ''50.00'',
          u_createdAt = 0\<rparr>"
  using createUser_starts_with_50[of "\<lparr>iu_username = ''alice'', iu_password = ''secret''\<rparr>" empty_db]
  by (simp add: createUser_def attempt_def empty_db_def)

lemma red_bet_wins: "bet_won red_bet red_two"
  by (simp add: bet_won_def red_bet_def red_two_def)

lemma red_bet_payout: "bet_payout red_bet red_two = ''19.5''"
  by (simp add: bet_payout_def bet_won_def bet_multiplier_def red_bet_def red_two_def
      str_eval num_eval split del: if_split)

text \<open>
  C9. When the bet wins, no user row has the bet's user id and the database accepts the
  calls, the loop iteration still rewrites the bet as won with its full payout, credits
  nobody, and goes on to the next bet: the two writes are separate storage calls.
\<close>

theorem winning_bet_of_missing_user:
  assumes "bet_won b res" and "find (\<lambda>u. u_id u = b_userId b) (users d) = None" and "faults d = []"
  shows "\<exists>d'. settle_bet res b d = (Inr (), d')
           \<and> bets d' = map (\<lambda>x. if b_id x = b_id b
                   then x\<lparr>b_payout := js_toString (js_mul (parseFloat (b_amount b)) (bet_multiplier b res)),
                         b_status := ''won''\<rparr>
                   else x) (bets d)
           \<and> users d' = users d"
proof -
  obtain d' where s: "settle_bet res b d = (Inr (), d')" using settle_bet_no_fault[OF assms(3)] by blast
  have "bets d' = update_row res b (bets d) \<and> users d' = credit res (users d) b"
    using settle_bet_ok[OF s] by simp
  then show ?thesis
    using s assms(1,2) by (auto simp: update_row_def credit_def bet_payout_def bet_status_def)
qed


theorem winning_bet_of_missing_user_witness:
  "bet_won red_bet red_two \<and> find (\<lambda>u. u_id u = b_userId red_bet) (users orphan_db) = None
   \<and> faults orphan_db = []
   \<and> settle_bet red_two red_bet orphan_db =
       (Inr (), orphan_db\<lparr>bets := [red_bet\<lparr>b_payout := ''19.5'', b_status := ''won''\<rparr>]\<rparr>)"
proof -
  have a: "find (\<lambda>u. u_id u = b_userId red_bet) (users orphan_db) = None"
    and f: "faults orphan_db = []"
    by (simp_all add: orphan_db_def)
  have p: "js_toString (js_mul (parseFloat (b_amount red_bet)) (bet_multiplier red_bet red_two)) = ''19.5''"
    using red_bet_payout red_bet_wins by (simp add: bet_payout_def)
  obtain d' where d': "settle_bet red_two red_bet orphan_db = (Inr (), d')"
    "bets d' = [red_bet\<lparr>b_payout := ''19.5'', b_status := ''won''\<rparr>]" "users d' = users orphan_db"
    using winning_bet_of_missing_user[OF red_bet_wins a f] unfolding p
    by (auto simp: orphan_db_def)
  have "settle_bet red_two red_bet orphan_db =
       (Inr (), orphan_db\<lparr>bets := [red_bet\<lparr>b_payout := ''19.5'', b_status := ''won''\<rparr>]\<rparr>)"
    using red_bet_wins red_bet_payout
    by (simp add: settle_bet_def storage_no_fault orphan_db_def bet_status_def)
  then show ?thesis using red_bet_wins a f d' by simp
qed

section \<open>The settlement rule\<close>

lemma seven_bet_payout: "bet_payout seven_bet violet_seven = ''90''"
  by (simp add: bet_payout_def bet_won_def bet_multiplier_def seven_bet_def violet_seven_def
      str_eval num_eval split del: if_split)

lemma seven_bet_wins: "bet_won seven_bet violet_seven"
  by (simp add: bet_won_def seven_bet_def violet_seven_def str_eval num_eval split del: if_split)

text \<open>
  C1. A color bet wins exactly when its value is the round's color, with multiplier 4.5 for
  violet and 1.95 otherwise; a number bet wins exactly when \<open>parseInt\<close> of its value is the
  round's number, with multiplier 9; a losing bet gets payout "0.00" and status lost, a
  winning bet status won and the payout \<open>amount * multiplier\<close>; and when
  \<open>processRoundResult\<close> ends without an error, every bet of the round carries exactly
  this status and payout.
\<close>

theorem settlement_decides_each_bet:
  "(b_betType b = ''color'' \<longrightarrow>
      (bet_won b res \<longleftrightarrow> b_betValue b = res_color res)
      \<and> (bet_won b res \<longrightarrow> bet_multiplier b res =
            (if res_color res = ''violet'' then Fin (9 / 2) else round_double (195 / 100))))
   \<and> (b_betType b = ''number'' \<longrightarrow>
      (bet_won b res \<longleftrightarrow> js_strict_eq (parseInt (b_betValue b)) (res_number res))
      \<and> (bet_won b res \<longrightarrow> bet_multiplier b res = Fin 9))
   \<and> (\<not> bet_won b res \<longrightarrow> bet_payout b res = ''0.00'' \<and> bet_status b res = ''lost'')
   \<and> (bet_won b res \<longrightarrow> bet_status b res = ''won''
        \<and> bet_payout b res = js_toString (js_mul (parseFloat (b_amount b)) (bet_multiplier b res)))
   \<and> (processRoundResult rid res d = (None, d') \<and> distinct (map b_id (bets d))
        \<and> b \<in> set (bets d) \<and> b_roundId b = rid \<longrightarrow>
        b\<lparr>b_payout := bet_payout b res, b_status := bet_status b res\<rparr> \<in> set (bets d'))"
proof -
  have "b\<lparr>b_payout := bet_payout b res, b_status := bet_status b res\<rparr> \<in> set (bets d')"
    if p: "processRoundResult rid res d = (None, d')" and i: "distinct (map b_id (bets d))"
      and m: "b \<in> set (bets d)" and r: "b_roundId b = rid"
  proof -
    have "bets d' = map (\<lambda>b. if b_roundId b = rid then settled res b else b) (bets d)"
      using processRoundResult_ok[OF p i] by simp
    then have "settled res b \<in> set (bets d')" using m r by force
    then show ?thesis by (simp add: settled_def)
  qed
  then show ?thesis
    by (auto simp: bet_won_def bet_multiplier_def bet_payout_def bet_status_def)
qed

theorem settlement_decides_each_bet_witness:
  "bet_won red_bet red_two \<and> bet_status red_bet red_two = ''won''
   \<and> bet_payout red_bet red_two = ''19.5''
   \<and> bet_won seven_bet violet_seven \<and> bet_multiplier seven_bet violet_seven = Fin 9
   \<and> bet_payout seven_bet violet_seven = ''90''
   \<and> \<not> bet_won red_bet violet_seven \<and> bet_payout red_bet violet_seven = ''0.00''
   \<and> bet_status red_bet violet_seven = ''lost''
   \<and> processRoundResult 1 red_two orphan_db =
        (None, orphan_db\<lparr>bets := [red_bet\<lparr>b_payout := ''19.5'', b_status := ''won''\<rparr>]\<rparr>)"
proof -
  have l: "\<not> bet_won red_bet violet_seven"
    by (simp add: bet_won_def red_bet_def violet_seven_def)
  have t: "b_betType red_bet = ''color''" "b_betType seven_bet = ''number''"
    by (simp_all add: red_bet_def seven_bet_def)
  have p: "processRoundResult 1 red_two orphan_db =
        (None, orphan_db\<lparr>bets := [red_bet\<lparr>b_payout := ''19.5'', b_status := ''won''\<rparr>]\<rparr>)"
    using red_bet_wins red_bet_payout
    by (simp add: processRoundResult_def settle_bet_def storage_no_fault orphan_db_def
        bet_status_def red_bet_def)
  show ?thesis
    using settlement_decides_each_bet[of red_bet red_two 1 orphan_db
        "orphan_db\<lparr>bets := [red_bet\<lparr>b_payout := ''19.5'', b_status := ''won''\<rparr>]\<rparr>"]
      settlement_decides_each_bet[of seven_bet violet_seven]
      settlement_decides_each_bet[of red_bet violet_seven]
      red_bet_wins red_bet_payout seven_bet_wins seven_bet_payout l t p
    by simp
qed

section \<open>The outcome generator\<close>

text \<open>
  C5. For every value \<open>r1\<close> that \<open>Math.random()\<close> can return (and any \<open>r2\<close>), the generator
  returns a number \<open>n\<close> in 0..9; the color is green for 1, 3, 7, 9, red for 2, 4, 6, 8, for 0
  red or violet and for 5 green or violet, the first when the second draw is below 1/2;
  no other color is returned.
\<close>

theorem generateResult_number_and_color:
  assumes "unit_random r1"
  shows "\<exists>n. res_number (generateResult r1 r2) = Fin (of_int n) \<and> 0 \<le> n \<and> n \<le> 9
       \<and> (n \<in> {1, 3, 7, 9} \<longrightarrow> res_color (generateResult r1 r2) = ''green'')
       \<and> (n \<in> {2, 4, 6, 8} \<longrightarrow> res_color (generateResult r1 r2) = ''red'')
       \<and> (n = 0 \<longrightarrow> res_color (generateResult r1 r2) =
                      (if js_lt r2 (Fin (1 / 2)) then ''red'' else ''violet''))
       \<and> (n = 5 \<longrightarrow> res_color (generateResult r1 r2) =
                      (if js_lt r2 (Fin (1 / 2)) then ''green'' else ''violet''))
       \<and> res_color (generateResult r1 r2) \<in> {''red'', ''green'', ''violet''}"
proof -
  obtain n where n: "js_floor (js_mul r1 (Fin 10)) = Fin (of_int n)" "0 \<le> n" "n \<le> 9"
    using random_digit[OF assms] by blast
  have "n \<in> set [0..9]" using n(2,3) by simp
  then have "n \<in> {0, 1, 2, 3, 4, 5, 6, 7, 8, 9}"
    by (simp add: upto.simps split del: if_split)
  then have "(n \<in> {1, 3, 7, 9} \<longrightarrow> result_color (Fin (of_int n)) r2 = ''green'')
       \<and> (n \<in> {2, 4, 6, 8} \<longrightarrow> result_color (Fin (of_int n)) r2 = ''red'')
       \<and> (n = 0 \<longrightarrow> result_color (Fin (of_int n)) r2 =
                      (if js_lt r2 (Fin (1 / 2)) then ''red'' else ''violet''))
       \<and> (n = 5 \<longrightarrow> result_color (Fin (of_int n)) r2 =
                      (if js_lt r2 (Fin (1 / 2)) then ''green'' else ''violet''))
       \<and> result_color (Fin (of_int n)) r2 \<in> {''red'', ''green'', ''violet''}"
    by (auto simp: result_color_def js_strict_eq_def)
  then show ?thesis using n by (auto simp: generateResult_def)
qed

theorem generateResult_number_and_color_witness:
  "unit_random (Fin (1 / 2))
   \<and> generateResult (Fin (1 / 2)) (Fin (1 / 4)) = \<lparr>res_color = ''green'', res_number = Fin 5\<rparr>
   \<and> generateResult (Fin (1 / 2)) (Fin (3 / 4)) = \<lparr>res_color = ''violet'', res_number = Fin 5\<rparr>"
proof -
  have u: "unit_random (Fin (1 / 2))"
    by (simp add: num_eval split del: if_split)
  have m: "js_mul (Fin (1 / 2)) (Fin 10) = Fin 5" by simp
  show ?thesis
    using u generateResult_number_and_color[OF u, of "Fin (1 / 4)"]
      generateResult_number_and_color[OF u, of "Fin (3 / 4)"]
    by (simp add: generateResult_def m result_color_def js_strict_eq_def)
qed

section \<open>The period sequencer\<close>

lemma slice_last_label: "slice_last 3 (basePeriodNumber @ pad3 m) = pad3 m"
  by (simp add: slice_last_def basePeriodNumber_def pad3_def)

lemma wrap_mod: "0 \<le> n \<Longrightarrow> n \<le> 999 \<Longrightarrow> (if n = 999 then 0 else n + 1) = (n + 1) mod (1000::int)"
  by auto

lemma issue_labels:
  "0 \<le> n \<Longrightarrow> n \<le> 999 \<Longrightarrow> currentSequence eng = Fin (of_int n) \<Longrightarrow>
     fst (issue k eng) = map (\<lambda>i. basePeriodNumber @ pad3 ((n + 1 + int i) mod 1000)) [0..<k]"
proof (induction k arbitrary: n eng)
  case 0
  then show ?case by simp
next
  case (Suc k)
  let ?n' = "(n + 1) mod 1000"
  have g: "generatePeriodNumber eng =
      (basePeriodNumber @ pad3 ?n', eng\<lparr>currentSequence := Fin (of_int ?n')\<rparr>)"
    using generatePeriodNumber_int[OF Suc.prems] wrap_mod[OF Suc.prems(1,2)] by simp
  have r: "0 \<le> ?n'" "?n' \<le> 999" by auto
  have IH: "fst (issue k (eng\<lparr>currentSequence := Fin (of_int ?n')\<rparr>)) =
      map (\<lambda>i. basePeriodNumber @ pad3 ((?n' + 1 + int i) mod 1000)) [0..<k]"
    by (rule Suc.IH[OF r]) simp
  have shift: "(?n' + 1 + int i) mod 1000 = (n + 1 + int (Suc i)) mod 1000" for i
  proof -
    have "(?n' + 1 + int i) mod 1000 = (?n' + (1 + int i)) mod 1000" by (simp add: add.assoc)
    also have "\<dots> = (n + 1 + (1 + int i)) mod 1000" by (rule mod_add_left_eq)
    also have "\<dots> = (n + 1 + int (Suc i)) mod 1000" by (simp add: algebra_simps)
    finally show ?thesis .
  qed
  show ?case
    unfolding issue.simps g fst_conv snd_conv IH shift
    by (simp add: map_upt_Suc del: upt_Suc)
qed

lemma nth_issue:
  assumes "0 \<le> n" "n \<le> 999" "currentSequence eng = Fin (of_int n)" "i < k"
  shows "fst (issue k eng) ! i = basePeriodNumber @ pad3 ((n + 1 + int i) mod 1000)"
  unfolding issue_labels[OF assms(1-3)] using assms(4) by (simp add: nth_map_upt del: upt_Suc)

lemma length_issue: "length (fst (issue k eng)) = k"
  by (induction k arbitrary: eng) simp_all

lemma last_issue:
  assumes "0 \<le> n" "n \<le> 999" "currentSequence eng = Fin (of_int n)"
  shows "last (fst (issue (Suc k) eng)) = basePeriodNumber @ pad3 ((n + 1 + int k) mod 1000)"
proof -
  let ?ls = "fst (issue (Suc k) eng)"
  have len: "length ?ls = Suc k" by (rule length_issue)
  then have "?ls \<noteq> []" by auto
  then have "last ?ls = ?ls ! (length ?ls - 1)" by (rule last_conv_nth)
  also have "\<dots> = ?ls ! k" unfolding len by simp
  also have "\<dots> = basePeriodNumber @ pad3 ((n + 1 + int k) mod 1000)"
    by (rule nth_issue[OF assms]) simp
  finally show ?thesis .
qed

text \<open>
  C7. For a counter value \<open>n\<close> in 0..999 one call of the sequencer leaves the counter at
  \<open>n + 1\<close>, or at 0 when \<open>n + 1\<close> passes 999, and returns the fixed prefix followed by the
  new counter zero-padded to three digits; nothing else in the engine changes.
\<close>

theorem generatePeriodNumber_increments_wraps_pads:
  assumes "0 \<le> n" and "n \<le> 999" and "currentSequence eng = Fin (of_int n)"
  shows "currentSequence (snd (generatePeriodNumber eng)) = Fin (of_int (if 999 < n + 1 then 0 else n + 1))
       \<and> fst (generatePeriodNumber eng) = ''127927270'' @ pad3 (if 999 < n + 1 then 0 else n + 1)
       \<and> currentRoundId (snd (generatePeriodNumber eng)) = currentRoundId eng"
proof -
  have "(if 999 < n + 1 then 0 else n + 1) = (if n = 999 then 0 else n + 1)" using assms by auto
  then show ?thesis
    using generatePeriodNumber_int[OF assms] by (simp add: basePeriodNumber_def)
qed

theorem generatePeriodNumber_increments_wraps_pads_witness:
  "generatePeriodNumber initial_engine = (''127927270868'', initial_engine\<lparr>currentSequence := Fin 868\<rparr>)
   \<and> generatePeriodNumber (initial_engine\<lparr>currentSequence := Fin 999\<rparr>)
       = (''127927270000'', initial_engine\<lparr>currentSequence := Fin 0\<rparr>)"
proof -
  have a: "currentSequence initial_engine = Fin (of_int 867)" by (simp add: initial_engine_def)
  have b: "currentSequence (initial_engine\<lparr>currentSequence := Fin 999\<rparr>) = Fin (of_int 999)" by simp
  show ?thesis
    using generatePeriodNumber_increments_wraps_pads[of 867 initial_engine, OF _ _ a]
      generatePeriodNumber_increments_wraps_pads[of 999 "initial_engine\<lparr>currentSequence := Fin 999\<rparr>", OF _ _ b]
    by (simp add: prod_eq_iff pad3_def digit_char_def initial_engine_def)
qed

text \<open>
  C6, as stated: from counter 867, the 133rd call would leave the suffix at 999 and the
  134th would wrap it to 000. It fails: the 133rd call already issues 000.
\<close>

theorem sequencer_133_calls_counterexample:
  "\<not> (slice_last 3 (last (fst (issue 133 initial_engine))) = ''999''
      \<and> slice_last 3 (last (fst (issue 134 initial_engine))) = ''000'')"
proof -
  have a: "currentSequence initial_engine = Fin (of_int 867)" by (simp add: initial_engine_def)
  have "last (fst (issue (Suc 132) initial_engine)) = basePeriodNumber @ pad3 0"
    using last_issue[OF _ _ a, of 132] by simp
  then have "slice_last 3 (last (fst (issue 133 initial_engine))) = ''000''"
    by (simp add: slice_last_label) (simp add: pad3_def digit_char_def)
  then show ?thesis by simp
qed

text \<open>
  C6, amended: from counter 867, 132 calls leave the suffix at 999, and one further call
  (the 133rd) wraps it from 999 to 000.
\<close>

theorem sequencer_132_calls_then_wrap:
  "slice_last 3 (last (fst (issue 132 initial_engine))) = ''999''
   \<and> slice_last 3 (last (fst (issue 133 initial_engine))) = ''000''"
proof -
  have a: "currentSequence initial_engine = Fin (of_int 867)" by (simp add: initial_engine_def)
  have "last (fst (issue (Suc 131) initial_engine)) = basePeriodNumber @ pad3 999"
    using last_issue[OF _ _ a, of 131] by simp
  then have x: "slice_last 3 (last (fst (issue 132 initial_engine))) = ''999''"
    by (simp add: slice_last_label) (simp add: pad3_def digit_char_def)
  have "last (fst (issue (Suc 132) initial_engine)) = basePeriodNumber @ pad3 0"
    using last_issue[OF _ _ a, of 132] by simp
  then have y: "slice_last 3 (last (fst (issue 133 initial_engine))) = ''000''"
    by (simp add: slice_last_label) (simp add: pad3_def digit_char_def)
  show ?thesis using x y by simp
qed

text \<open>
  C8. The labels are not unique over a run of any length: whatever the counter (0..999),
  the 1001st label issued is the first one again.
\<close>

theorem period_labels_repeat_after_1000:
  assumes "0 \<le> n" and "n \<le> 999" and "currentSequence eng = Fin (of_int n)"
  shows "fst (issue 1001 eng) ! 1000 = fst (issue 1001 eng) ! 0
       \<and> length (fst (issue 1001 eng)) = 1001
       \<and> \<not> distinct (fst (issue 1001 eng))"
proof -
  let ?ls = "fst (issue 1001 eng)"
  have len: "length ?ls = 1001" by (rule length_issue)
  have m: "(n + 1 + 1000) mod 1000 = (n + 1) mod (1000::int)" by (rule mod_add_self2)
  have "?ls ! 1000 = basePeriodNumber @ pad3 ((n + 1 + int 1000) mod 1000)"
    by (rule nth_issue[OF assms]) simp
  moreover have "?ls ! 0 = basePeriodNumber @ pad3 ((n + 1 + int 0) mod 1000)"
    by (rule nth_issue[OF assms]) simp
  ultimately have eq: "?ls ! 1000 = ?ls ! 0" using m by simp
  have "\<not> distinct ?ls"
  proof
    assume "distinct ?ls"
    then have "(1000::nat) = 0" using eq len by (simp add: nth_eq_iff_index_eq)
    then show False by simp
  qed
  then show ?thesis using len eq by simp
qed

theorem period_labels_repeat_after_1000_witness:
  "fst (issue 1001 initial_engine) ! 1000 = fst (issue 1001 initial_engine) ! 0
   \<and> fst (issue 1001 initial_engine) ! 0 = ''127927270868''"
proof -
  have a: "currentSequence initial_engine = Fin (of_int 867)" by (simp add: initial_engine_def)
  have "fst (issue 1001 initial_engine) ! 0 = basePeriodNumber @ pad3 ((867 + 1 + int 0) mod 1000)"
    by (rule nth_issue[OF _ _ a]) simp_all
  then have "fst (issue 1001 initial_engine) ! 0 = ''127927270868''"
    by (simp add: basePeriodNumber_def pad3_def digit_char_def)
  then show ?thesis
    using period_labels_repeat_after_1000[of 867 initial_engine, OF _ _ a] by simp
qed

section \<open>The tick\<close>




lemma set_recent_first [simp]: "set (recent_first rs) = set rs"
  by (simp add: recent_first_def)









section \<open>Placing a bet\<close>






lemma failed_not_accepted [simp]: "\<not> accepted failed_to_place"
  by (simp add: accepted_def failed_to_place_def)




section \<open>The strings written for money\<close>








end
